theory Spec2Isabelle
  imports Complex_Main "HOL-Library.Sublist" "HOL-Library.Multiset"
begin

section \<open>Strings and character classes\<close>

text \<open>
  A JavaScript string is a sequence of UTF-16 code units.  The model takes the code units
  0..255 (type \<open>char\<close>); every code unit above that range is deleted by the cleaning
  step of the validator (it is neither in \<open>[A-Z0-9-]\<close> nor kept after \<open>\s+\<close> removal), so
  the restriction loses no plate.  The character classes are those of the regular
  expression literals of \<open>analyze-plate-enhanced.post.js\<close>.
\<close>

definition code :: "char \<Rightarrow> nat" where
  "code c = of_char c"

definition is_upper :: "char \<Rightarrow> bool" where
  \<comment> \<open>\<open>[A-Z]\<close>\<close>
  "is_upper c = (65 \<le> code c \<and> code c \<le> 90)"

definition is_lower :: "char \<Rightarrow> bool" where
  \<comment> \<open>\<open>[a-z]\<close>\<close>
  "is_lower c = (97 \<le> code c \<and> code c \<le> 122)"

definition is_digit :: "char \<Rightarrow> bool" where
  \<comment> \<open>\<open>\d\<close>, which is \<open>[0-9]\<close> in JavaScript\<close>
  "is_digit c = (48 \<le> code c \<and> code c \<le> 57)"

definition is_dash :: "char \<Rightarrow> bool" where
  "is_dash c = (c = CHR ''-'')"

definition is_space :: "char \<Rightarrow> bool" where
  \<comment> \<open>\<open>\s\<close> on the code units 0..255: TAB, LF, VT, FF, CR, SPACE and NBSP\<close>
  "is_space c = (code c = 9 \<or> code c = 10 \<or> code c = 11 \<or> code c = 12 \<or> code c = 13
                 \<or> code c = 32 \<or> code c = 160)"

definition to_upper :: "char \<Rightarrow> char" where
  \<comment> \<open>\<open>toUpperCase\<close> of one code unit, on the ASCII letters\<close>
  "to_upper c = (if is_lower c then char_of (code c - 32) else c)"

definition toUpperCase :: "string \<Rightarrow> string" where
  "toUpperCase s = map to_upper s"

section \<open>The regular expressions of the plate grammar\<close>

text \<open>
  Every pattern of \<open>MEXICAN_PLATE_PATTERNS\<close> and every anchored test of the scorer is a
  sequence of greedy quantified character classes \<open>C{mn,mx}\<close> (\<open>C?\<close> is \<open>C{0,1}\<close>,
  \<open>C{n}\<close> is \<open>C{n,n}\<close>).
\<close>

datatype cclass = Upper | Digit | Dash

type_synonym item = "cclass \<times> nat \<times> nat"
type_synonym regex = "item list"

fun in_class :: "cclass \<Rightarrow> char \<Rightarrow> bool" where
  "in_class Upper c = is_upper c"
| "in_class Digit c = is_digit c"
| "in_class Dash c = is_dash c"

fun run :: "cclass \<Rightarrow> string \<Rightarrow> nat" where
  \<comment> \<open>how many leading characters of the string lie in the class\<close>
  "run c [] = 0"
| "run c (x # xs) = (if in_class c x then Suc (run c xs) else 0)"

text \<open>
  The backtracking matcher: \<open>matches p s\<close> lists the lengths of the prefixes of \<open>s\<close> that
  \<open>p\<close> matches, in the order in which the backtracking engine finds them (a greedy
  quantifier tries the longest repetition first and gives characters back one at a time).
\<close>

fun matches :: "regex \<Rightarrow> string \<Rightarrow> nat list" where
  "matches [] s = [0]"
| "matches ((c, mn, mx) # its) s =
     concat (map (\<lambda>k. map (\<lambda>l. k + l) (matches its (drop k s)))
                 (rev [mn ..< Suc (min mx (run c s))]))"

definition match_prefix :: "regex \<Rightarrow> string \<Rightarrow> nat option" where
  \<comment> \<open>one attempt of the engine at the current position: the first match found\<close>
  "match_prefix p s = (case matches p s of [] \<Rightarrow> None | n # _ \<Rightarrow> Some n)"

definition test_anchored :: "regex \<Rightarrow> string \<Rightarrow> bool" where
  \<comment> \<open>\<open>/^p$/.test(s)\<close>\<close>
  "test_anchored p s = (length s \<in> set (matches p s))"

text \<open>
  \<open>s.match(p)\<close> for a pattern with the \<open>g\<close> flag: all matches, left to right, each search
  resuming where the previous match ended (one code unit further after an empty match, and
  the search ends once it has passed the end of the string).
\<close>

fun match_all :: "regex \<Rightarrow> string \<Rightarrow> string list" where
  "match_all p [] = (case match_prefix p [] of Some _ \<Rightarrow> [[]] | None \<Rightarrow> [])"
| "match_all p (c # cs) =
     (case match_prefix p (c # cs) of
        Some n \<Rightarrow>
          if n = 0 then [] # match_all p cs
          else take n (c # cs) # match_all p (drop (n - 1) cs)
      | None \<Rightarrow> match_all p cs)"

definition MEXICAN_PLATE_PATTERNS :: "regex list" where
  "MEXICAN_PLATE_PATTERNS =
    [ [(Upper, 3, 3), (Dash, 0, 1), (Digit, 2, 2), (Dash, 0, 1), (Digit, 2, 2)],
      [(Upper, 3, 3), (Dash, 0, 1), (Digit, 3, 3), (Dash, 0, 1), (Upper, 0, 1)],
      [(Upper, 3, 3), (Dash, 0, 1), (Digit, 3, 3), (Dash, 0, 1)],
      [(Upper, 3, 3), (Dash, 0, 1), (Digit, 4, 4)],
      [(Upper, 3, 3), (Digit, 4, 4)],
      [(Upper, 3, 3), (Digit, 2, 2), (Upper, 2, 2)],
      [(Upper, 2, 2), (Dash, 0, 1), (Digit, 3, 3), (Dash, 0, 1), (Upper, 2, 2)],
      [(Digit, 2, 2), (Dash, 0, 1), (Upper, 2, 2), (Dash, 0, 1), (Digit, 3, 3)],
      [(Upper, 2, 3), (Digit, 2, 4), (Upper, 0, 1)] ]"


section \<open>The validator of \<open>analyze-plate-enhanced.post.js\<close>\<close>

subsection \<open>Cleaning\<close>

definition keep_char :: "char \<Rightarrow> bool" where
  \<comment> \<open>the characters that \<open>.replace(/[^A-Z0-9-\s]/g, '')\<close> leaves in place\<close>
  "keep_char c = (is_upper c \<or> is_digit c \<or> is_dash c \<or> is_space c)"

fun ci_prefix :: "string \<Rightarrow> string \<Rightarrow> bool" where
  \<comment> \<open>the literal matches at the start of the string, ignoring case (flag \<open>i\<close>)\<close>
  "ci_prefix [] s = True"
| "ci_prefix (l # ls) [] = False"
| "ci_prefix (l # ls) (c # cs) = (to_upper l = to_upper c \<and> ci_prefix ls cs)"

function remove_ci :: "string \<Rightarrow> string \<Rightarrow> string" where
  \<comment> \<open>\<open>.replace(/lit/gi, '')\<close> for a non-empty literal \<open>lit\<close>\<close>
  "remove_ci lit [] = []"
| "remove_ci lit (c # cs) =
     (if lit \<noteq> [] \<and> ci_prefix lit (c # cs) then remove_ci lit (drop (length lit) (c # cs))
      else c # remove_ci lit cs)"
  by pat_completeness auto
termination
  by (relation "measure (\<lambda>(lit, s). length s)") (auto simp: Suc_diff_le)

definition cleanText :: "string \<Rightarrow> string" where
  "cleanText text =
     toUpperCase
       (filter (\<lambda>c. \<not> is_space c)
         (remove_ci ''.com''
           (remove_ci ''www.''
             (remove_ci ''platesmania''
               (filter keep_char text)))))"


subsection \<open>Scoring\<close>

fun str_includes :: "string \<Rightarrow> string \<Rightarrow> bool" where
  \<comment> \<open>\<open>str_includes s lit\<close>: the literal occurs somewhere in \<open>s\<close>\<close>
  "str_includes [] lit = (lit = [])"
| "str_includes (c # cs) lit = (prefix lit (c # cs) \<or> str_includes cs lit)"

definition test_any :: "string list \<Rightarrow> string \<Rightarrow> bool" where
  \<comment> \<open>\<open>/l1|l2|.../.test(s)\<close> for literals \<open>l1, l2, ...\<close>\<close>
  "test_any lits s = list_ex (str_includes s) lits"

definition base_score :: "string \<Rightarrow> int" where
  "base_score m =
     (if test_anchored [(Upper, 3, 3), (Dash, 0, 1), (Digit, 2, 2), (Dash, 0, 1), (Digit, 2, 2)] m
        then 100
      else if test_anchored [(Upper, 3, 3), (Dash, 0, 1), (Digit, 3, 3), (Dash, 0, 1), (Upper, 1, 1)] m
        then 90
      else if test_anchored [(Upper, 3, 3), (Dash, 0, 1), (Digit, 3, 3), (Dash, 0, 1)] m
        then 85
      else if test_anchored [(Upper, 3, 3), (Dash, 0, 1), (Digit, 4, 4)] m
        then 80
      else if test_anchored [(Upper, 2, 2), (Dash, 0, 1), (Digit, 3, 3), (Dash, 0, 1), (Upper, 2, 2)] m
        then 85
      else if test_anchored [(Upper, 2, 3), (Digit, 2, 4), (Upper, 0, 1)] m
        then 60
      else 50)"

definition score_of :: "string \<Rightarrow> int" where
  \<comment> \<open>the value of \<open>score\<close> when the candidate is pushed\<close>
  "score_of m =
     (let score = 0;
          score = score + base_score m;
          score = (if str_includes m ''-'' then score + 10 else score);
          score = (if test_any [''000'', ''111'', ''222'', ''333'', ''444'', ''555'', ''666'',
                                ''777'', ''888'', ''999''] m
                   then score - 20 else score);
          score = (if test_any [''AAA'', ''BBB'', ''CCC''] m then score - 15 else score)
      in score)"

subsection \<open>Candidates and ranking\<close>

record candidate =
  plate :: string
  score :: int

text \<open>
  \<open>Array.prototype.sort\<close> with a comparison function.  ECMAScript requires the sort to
  be stable and, for a consistent comparison function, fixes the result; the model is the
  stable insertion sort, which puts each element of the array, from left to right, before
  the first element already placed that the comparison function puts behind it.  The
  comparison function of the candidates is consistent.  That of \<open>ocrResults.sort\<close> is not,
  and there the standard leaves the order to the engine: the statements about it below are
  about arrays of two elements, where the one call \<open>cmp(a[1], a[0])\<close> decides (as it does in
  V8), and about arrays on whose elements the comparison is a strict total order, which
  every comparison sort puts in the same order.  For three or more results with near ties
  among them the order that V8 gives can differ from that of the model; no statement below
  is about such an array.
\<close>

fun sort_insert :: "('a \<Rightarrow> 'a \<Rightarrow> 'n::{zero,ord}) \<Rightarrow> 'a \<Rightarrow> 'a list \<Rightarrow> 'a list" where
  "sort_insert cmp x [] = [x]"
| "sort_insert cmp x (y # ys) = (if cmp x y < 0 then x # y # ys else y # sort_insert cmp x ys)"

definition array_sort :: "('a \<Rightarrow> 'a \<Rightarrow> 'n::{zero,ord}) \<Rightarrow> 'a list \<Rightarrow> 'a list" where
  "array_sort cmp xs = foldl (\<lambda>acc x. sort_insert cmp x acc) [] xs"

definition by_score_desc :: "candidate \<Rightarrow> candidate \<Rightarrow> int" where
  \<comment> \<open>\<open>(a, b) => b.score - a.score\<close>\<close>
  "by_score_desc a b = score b - score a"

definition pattern_candidates :: "regex \<Rightarrow> string \<Rightarrow> candidate list" where
  \<comment> \<open>the candidates that one pattern pushes: its matches of length 6 to 10\<close>
  "pattern_candidates pattern clean =
     map (\<lambda>m. \<lparr>plate = m, score = score_of m\<rparr>)
         (filter (\<lambda>m. length m \<ge> 6 \<and> length m \<le> 10) (match_all pattern clean))"

definition collect_candidates :: "string \<Rightarrow> candidate list" where
  \<comment> \<open>the array \<open>candidates\<close> after the loop over the patterns\<close>
  "collect_candidates clean =
     concat (map (\<lambda>pattern. pattern_candidates pattern clean) MEXICAN_PLATE_PATTERNS)"

text \<open>
  The argument is \<open>None\<close> for \<open>null\<close> or \<open>undefined\<close>; \<open>!text\<close> also holds of the empty
  string.  \<open>ranked_candidates\<close> is the array \<open>candidates\<close> when the function returns
  (sorted when it is not empty, and empty on the early return, where it is never built).
\<close>

definition ranked_candidates :: "string option \<Rightarrow> candidate list" where
  "ranked_candidates text =
     (case text of
        None \<Rightarrow> []
      | Some t \<Rightarrow>
          if t = [] \<or> length t < 6 then []
          else array_sort by_score_desc (collect_candidates (cleanText t)))"

definition validateMexicanPlate :: "string option \<Rightarrow> string option" where
  "validateMexicanPlate text =
     (case text of
        None \<Rightarrow> None
      | Some t \<Rightarrow>
          if t = [] \<or> length t < 6 then None
          else (let candidates = collect_candidates (cleanText t)
                in if length candidates > 0
                   then (case array_sort by_score_desc candidates of
                           c # _ \<Rightarrow> Some (plate c)
                         | [] \<Rightarrow> None)
                   else None))"


section \<open>The validator of the standalone test (\<open>ProcessedImages.vue\<close>, lines 592 to 644)\<close>

definition STANDALONE_PLATE_PATTERNS :: "regex list" where
  "STANDALONE_PLATE_PATTERNS =
    [ [(Upper, 3, 3), (Dash, 0, 1), (Digit, 2, 2), (Dash, 0, 1), (Digit, 2, 2)],
      [(Upper, 3, 3), (Dash, 0, 1), (Digit, 3, 3), (Dash, 0, 1), (Upper, 0, 1)],
      [(Upper, 3, 3), (Dash, 0, 1), (Digit, 3, 3), (Dash, 0, 1)],
      [(Upper, 3, 3), (Dash, 0, 1), (Digit, 4, 4)],
      [(Upper, 3, 3), (Digit, 4, 4)],
      [(Upper, 3, 3), (Digit, 2, 2), (Upper, 2, 2)],
      [(Upper, 2, 3), (Digit, 2, 4), (Upper, 0, 1)] ]"

definition cleanText_standalone :: "string \<Rightarrow> string" where
  "cleanText_standalone text =
     toUpperCase
       (filter (\<lambda>c. \<not> is_space c)
         (remove_ci ''guerrero''
           (remove_ci ''katz''
             (remove_ci ''major''
               (remove_ci ''.com''
                 (remove_ci ''www.''
                   (remove_ci ''platesmania''
                     (filter keep_char text))))))))"

definition score_of_standalone :: "string \<Rightarrow> int" where
  "score_of_standalone m =
     (let score = 0;
          score = score +
            (if test_anchored [(Upper, 3, 3), (Dash, 0, 1), (Digit, 2, 2), (Dash, 0, 1), (Digit, 2, 2)] m
               then 100
             else if test_anchored [(Upper, 3, 3), (Dash, 0, 1), (Digit, 3, 3), (Dash, 0, 1), (Upper, 1, 1)] m
               then 90
             else if test_anchored [(Upper, 3, 3), (Dash, 0, 1), (Digit, 3, 3), (Dash, 0, 1)] m
               then 85
             else 50);
          score = (if str_includes m ''-'' then score + 10 else score)
      in score)"

definition pattern_candidates_standalone :: "regex \<Rightarrow> string \<Rightarrow> candidate list" where
  \<comment> \<open>the candidates that one pattern pushes: its matches of length 5 to 10\<close>
  "pattern_candidates_standalone pattern clean =
     map (\<lambda>m. \<lparr>plate = m, score = score_of_standalone m\<rparr>)
         (filter (\<lambda>m. length m \<ge> 5 \<and> length m \<le> 10) (match_all pattern clean))"

definition collect_candidates_standalone :: "string \<Rightarrow> candidate list" where
  "collect_candidates_standalone clean =
     concat (map (\<lambda>pattern. pattern_candidates_standalone pattern clean)
                 STANDALONE_PLATE_PATTERNS)"

definition validateMexicanPlate_standalone :: "string option \<Rightarrow> string option" where
  "validateMexicanPlate_standalone text =
     (case text of
        None \<Rightarrow> None
      | Some t \<Rightarrow>
          if t = [] \<or> length t < 5 then None
          else (let candidates = collect_candidates_standalone (cleanText_standalone t)
                in if length candidates > 0
                   then (case array_sort by_score_desc candidates of
                           c # _ \<Rightarrow> Some (plate c)
                         | [] \<Rightarrow> None)
                   else None))"

section \<open>Ranking the OCR results of the image variations (\<open>detectPlateWithOCR\<close>)\<close>

text \<open>
  One observation is what one \<open>Tesseract.recognize\<close> call returned for one enhancement
  variation: the text, the confidence in percent, and the name of the variation.  A call
  that throws is skipped by the \<open>catch\<close> block of the loop, so the list holds the calls
  that returned, in the order of the loop.

  Confidences are exact rationals, where the source computes with IEEE doubles.  On the
  test \<open>Math.abs(a.confidence - b.confidence) < 0.1\<close> the two can disagree only when the exact
  difference is within rounding error of 0.1: so \<open>0.9 - 0.8\<close> is \<open>0.09999999999999998\<close> in
  doubles, a near tie in the source and none in the model.  For confidences between 0 and
  100 percent the rounding errors of the two quotients and of their difference add up to
  less than \<open>1e-15\<close>.  The statements below that need a comparison to be decided by the
  confidences therefore ask for a difference of at least 0.11 (11 points in percent, the
  least difference above 0.1 for confidences in whole percent); there the test fails in the
  model and in the source, and the difference has the same sign in both.
\<close>

record observation =
  o_text :: "string option"
  o_confidence :: rat
  o_variantName :: string

record ocr_result =
  r_plateText :: string
  r_confidence :: rat
  r_rawText :: "string option"
  r_source :: string

record detection =
  hasPlate :: bool
  plateText :: "string option"
  confidence :: rat
  processingMethod :: "string option"
  allCandidates :: "(string \<times> rat) list"

definition ocr_result_of :: "observation \<Rightarrow> ocr_result list" where
  \<comment> \<open>what one round of the loop pushes onto \<open>ocrResults\<close>\<close>
  "ocr_result_of ob =
     (case validateMexicanPlate (o_text ob) of
        None \<Rightarrow> []
      | Some validatedPlate \<Rightarrow>
          if validatedPlate = [] then []
          else [\<lparr>r_plateText = validatedPlate, r_confidence = o_confidence ob / 100,
                 r_rawText = o_text ob, r_source = o_variantName ob\<rparr>])"

definition by_confidence :: "ocr_result \<Rightarrow> ocr_result \<Rightarrow> rat" where
  \<comment> \<open>the comparison function of \<open>ocrResults.sort\<close>\<close>
  "by_confidence a b =
     (if \<bar>r_confidence a - r_confidence b\<bar> < 1 / 10
      then (if r_source a = ''enfocada'' then - 1 else 1)
      else r_confidence b - r_confidence a)"

definition no_detection :: detection where
  "no_detection = \<lparr>hasPlate = False, plateText = None, confidence = 0,
                    processingMethod = None, allCandidates = []\<rparr>"

definition rank_results :: "ocr_result list \<Rightarrow> detection" where
  \<comment> \<open>lines 372 to 399: from \<open>ocrResults\<close> to the returned object\<close>
  "rank_results ocrResults =
     (if length ocrResults > 0
      then (case array_sort by_confidence ocrResults of
              bestResult # rest \<Rightarrow>
                \<lparr>hasPlate = True, plateText = Some (r_plateText bestResult),
                 confidence = r_confidence bestResult,
                 processingMethod = Some (r_source bestResult),
                 allCandidates = map (\<lambda>r. (r_plateText r, r_confidence r)) (bestResult # rest)\<rparr>
            | [] \<Rightarrow> no_detection)
      else no_detection)"

definition detectPlateWithOCR :: "observation list \<Rightarrow> detection" where
  "detectPlateWithOCR obs = rank_results (concat (map ocr_result_of obs))"

section \<open>Choosing among the three detections (the request handler, lines 451 to 463)\<close>








section \<open>The scoring rule in the words of the specification\<close>

text \<open>
  The specification lists the exact-format checks in the order 100, 90, 85, 85, 80, 60, 50
  (the federal format \<open>LL-?DDD-?LL\<close> before the legacy format \<open>LLL-?DDDD\<close>), and words the
  adjustments as substring tests.
\<close>

definition base_score_spec :: "string \<Rightarrow> int" where
  "base_score_spec m =
     (if test_anchored [(Upper, 3, 3), (Dash, 0, 1), (Digit, 2, 2), (Dash, 0, 1), (Digit, 2, 2)] m
        then 100
      else if test_anchored [(Upper, 3, 3), (Dash, 0, 1), (Digit, 3, 3), (Dash, 0, 1), (Upper, 1, 1)] m
        then 90
      else if test_anchored [(Upper, 3, 3), (Dash, 0, 1), (Digit, 3, 3), (Dash, 0, 1)] m
        then 85
      else if test_anchored [(Upper, 2, 2), (Dash, 0, 1), (Digit, 3, 3), (Dash, 0, 1), (Upper, 2, 2)] m
        then 85
      else if test_anchored [(Upper, 3, 3), (Dash, 0, 1), (Digit, 4, 4)] m
        then 80
      else if test_anchored [(Upper, 2, 3), (Digit, 2, 4), (Upper, 0, 1)] m
        then 60
      else 50)"

definition score_spec :: "string \<Rightarrow> int" where
  "score_spec m =
     base_score_spec m
     + (if CHR ''-'' \<in> set m then 10 else 0)
     - (if list_ex (\<lambda>t. sublist t m)
             [''000'', ''111'', ''222'', ''333'', ''444'', ''555'', ''666'', ''777'', ''888'', ''999'']
        then 20 else 0)
     - (if list_ex (\<lambda>t. sublist t m) [''AAA'', ''BBB'', ''CCC''] then 15 else 0)"

section \<open>Auxiliary notions for the statements\<close>

definition plate_char :: "char \<Rightarrow> bool" where
  \<comment> \<open>an uppercase Latin letter, a digit or a dash\<close>
  "plate_char c = (is_upper c \<or> is_digit c \<or> is_dash c)"

definition far_apart :: "ocr_result \<Rightarrow> ocr_result \<Rightarrow> bool" where
  \<comment> \<open>the two confidences differ by at least 0.11\<close>
  "far_apart a b = (11 / 100 \<le> \<bar>r_confidence a - r_confidence b\<bar>)"

definition separated :: "ocr_result list \<Rightarrow> bool" where
  \<comment> \<open>any two results of the list are at least 0.11 apart in confidence\<close>
  "separated xs = sorted_wrt far_apart xs"

definition conf_desc :: "ocr_result \<Rightarrow> ocr_result \<Rightarrow> bool" where
  \<comment> \<open>the first result is at least 0.11 more confident than the second\<close>
  "conf_desc a b = (r_confidence b + 11 / 100 \<le> r_confidence a)"

definition candidate_of :: "ocr_result \<Rightarrow> string \<times> rat" where
  \<comment> \<open>the entry of \<open>allCandidates\<close> that a result gives\<close>
  "candidate_of r = (r_plateText r, r_confidence r)"

definition score_desc :: "candidate \<Rightarrow> candidate \<Rightarrow> bool" where
  \<comment> \<open>the first candidate scores at least as much as the second\<close>
  "score_desc a b = (score b \<le> score a)"

section \<open>Properties of the matcher\<close>

lemma matches_Cons_iff:
  "n \<in> set (matches ((c, mn, mx) # its) s) \<longleftrightarrow>
     (\<exists>k l. mn \<le> k \<and> k \<le> mx \<and> k \<le> run c s \<and>
            l \<in> set (matches its (drop k s)) \<and> n = k + l)"
proof -
  have ks: "set (rev [mn ..< Suc (min mx (run c s))]) =
              {k. mn \<le> k \<and> k \<le> mx \<and> k \<le> run c s}"
    by auto
  show ?thesis
    unfolding matches.simps set_concat set_map ks by (auto simp: image_iff)
qed

lemma run_le_length: "run c s \<le> length s"
  by (induction s) auto

lemma matches_le_length: "n \<in> set (matches p s) \<Longrightarrow> n \<le> length s"
proof (induction p arbitrary: n s)
  case Nil
  then show ?case by simp
next
  case (Cons it its)
  obtain c mn mx where it: "it = (c, mn, mx)" by (cases it)
  from Cons.prems obtain k l where k: "k \<le> run c s" and l: "l \<in> set (matches its (drop k s))"
    and n: "n = k + l"
    unfolding it matches_Cons_iff by blast
  from Cons.IH [OF l] have "l \<le> length s - k" by simp
  then show ?case using k n run_le_length [of c s] by simp
qed

lemma match_prefix_le_length: "match_prefix p s = Some n \<Longrightarrow> n \<le> length s"
  by (rule matches_le_length [of n p s]) (auto simp: match_prefix_def split: list.splits)

section \<open>Properties of the sort\<close>

lemma set_sort_insert: "set (sort_insert cmp x ys) = insert x (set ys)"
  by (induction ys) auto

lemma length_sort_insert: "length (sort_insert cmp x ys) = Suc (length ys)"
  by (induction ys) auto

lemma set_foldl_sort_insert:
  "set (foldl (\<lambda>acc x. sort_insert cmp x acc) acc xs) = set acc \<union> set xs"
  by (induction xs arbitrary: acc) (auto simp: set_sort_insert)

lemma length_foldl_sort_insert:
  "length (foldl (\<lambda>acc x. sort_insert cmp x acc) acc xs) = length acc + length xs"
  by (induction xs arbitrary: acc) (auto simp: length_sort_insert)

lemma set_array_sort: "set (array_sort cmp xs) = set xs"
  by (simp add: array_sort_def set_foldl_sort_insert)

lemma length_array_sort: "length (array_sort cmp xs) = length xs"
  by (simp add: array_sort_def length_foldl_sort_insert)

lemma mset_sort_insert: "mset (sort_insert cmp x ys) = add_mset x (mset ys)"
  by (induction ys) auto

lemma mset_foldl_sort_insert:
  "mset (foldl (\<lambda>acc x. sort_insert cmp x acc) acc xs) = mset acc + mset xs"
  by (induction xs arbitrary: acc) (auto simp: mset_sort_insert)

lemma mset_array_sort: "mset (array_sort cmp xs) = mset xs"
  by (simp add: array_sort_def mset_foldl_sort_insert)

lemma array_sort_Nil_iff: "array_sort cmp xs = [] \<longleftrightarrow> xs = []"
  using length_array_sort [of cmp xs] by (metis length_0_conv)


lemma sorted_sort_insert_score:
  "sorted_wrt score_desc ys \<Longrightarrow> sorted_wrt score_desc (sort_insert by_score_desc x ys)"
  by (induction ys) (auto simp: set_sort_insert by_score_desc_def score_desc_def)

lemma sorted_foldl_score:
  "sorted_wrt score_desc acc \<Longrightarrow>
   sorted_wrt score_desc (foldl (\<lambda>acc x. sort_insert by_score_desc x acc) acc xs)"
  by (induction xs arbitrary: acc) (auto simp: sorted_sort_insert_score)

lemma sorted_array_sort_score: "sorted_wrt score_desc (array_sort by_score_desc xs)"
  by (simp add: array_sort_def sorted_foldl_score)

lemma array_sort_Nil [simp]: "array_sort cmp [] = []"
  by (simp add: array_sort_def)

lemma validate_eq_ranked:
  "validateMexicanPlate text = (case ranked_candidates text of [] \<Rightarrow> None | c # _ \<Rightarrow> Some (plate c))"
  by (auto simp: validateMexicanPlate_def ranked_candidates_def Let_def array_sort_Nil_iff
           split: option.splits list.splits)

section \<open>Every match is a part of the text that the pattern matches in full\<close>

lemma run_nth: "k < run c s \<Longrightarrow> k < length s \<and> in_class c (s ! k)"
proof (induction s arbitrary: k)
  case Nil
  then show ?case by simp
next
  case (Cons x xs)
  then show ?case by (cases k) (auto split: if_splits)
qed

lemma run_drop_nth: "0 < run c (drop j s) \<Longrightarrow> j < length s \<and> in_class c (s ! j)"
  using run_nth [of 0 c "drop j s"] by (cases "j < length s") auto

lemma run_take: "k \<le> run c s \<Longrightarrow> k \<le> n \<Longrightarrow> k \<le> run c (take n s)"
proof (induction s arbitrary: k n)
  case Nil
  then show ?case by simp
next
  case (Cons x xs)
  show ?case
  proof (cases k)
    case 0
    then show ?thesis by simp
  next
    case (Suc k')
    with Cons.prems obtain n' where n: "n = Suc n'" by (cases n) auto
    from Cons.prems Suc have "in_class c x" "k' \<le> run c xs" by (auto split: if_splits)
    with Cons.IH [of k' n'] Cons.prems Suc n show ?thesis by simp
  qed
qed

lemma run_chars: "k \<le> run c s \<Longrightarrow> x \<in> set (take k s) \<Longrightarrow> in_class c x"
proof -
  assume k: "k \<le> run c s" and x: "x \<in> set (take k s)"
  from x obtain i where i: "i < length (take k s)" "x = take k s ! i"
    by (auto simp: in_set_conv_nth)
  then have "i < run c s" using k by simp
  from run_nth [OF this] i show ?thesis by simp
qed


lemma in_class_plate_char: "in_class c x \<Longrightarrow> plate_char x"
  by (cases c) (auto simp: plate_char_def)

lemma matches_take: "n \<in> set (matches p s) \<Longrightarrow> n \<in> set (matches p (take n s))"
proof (induction p arbitrary: n s)
  case Nil
  then show ?case by simp
next
  case (Cons it its)
  obtain c mn mx where it: "it = (c, mn, mx)" by (cases it)
  from Cons.prems obtain k l where k: "mn \<le> k" "k \<le> mx" "k \<le> run c s"
    and l: "l \<in> set (matches its (drop k s))" and n: "n = k + l"
    unfolding it matches_Cons_iff by blast
  have "k \<le> run c (take n s)" using run_take [OF k(3)] n by simp
  moreover have "drop k (take n s) = take l (drop k s)" using n by (simp add: drop_take)
  ultimately show ?case
    unfolding it matches_Cons_iff using k n Cons.IH [OF l] by auto
qed

lemma matches_chars: "n \<in> set (matches p s) \<Longrightarrow> x \<in> set (take n s) \<Longrightarrow> plate_char x"
proof (induction p arbitrary: n s)
  case Nil
  then show ?case by simp
next
  case (Cons it its)
  obtain c mn mx where it: "it = (c, mn, mx)" by (cases it)
  from Cons.prems obtain k l where k: "k \<le> run c s"
    and l: "l \<in> set (matches its (drop k s))" and n: "n = k + l"
    unfolding it matches_Cons_iff by blast
  have "take n s = take k s @ take l (drop k s)" using n by (simp add: take_add)
  with Cons.prems(2) have "x \<in> set (take k s) \<or> x \<in> set (take l (drop k s))" by auto
  then show ?case
    using run_chars [OF k] Cons.IH [OF l] in_class_plate_char by blast
qed

lemma match_prefix_Some_iff: "match_prefix p s = Some n \<Longrightarrow> n \<in> set (matches p s)"
  by (auto simp: match_prefix_def split: list.splits)

lemma match_prefix_anchored:
  assumes "match_prefix p s = Some n"
  shows "test_anchored p (take n s)" and "list_all plate_char (take n s)"
proof -
  from assms have n: "n \<in> set (matches p s)" by (rule match_prefix_Some_iff)
  then have "n \<le> length s" by (rule matches_le_length)
  then show "test_anchored p (take n s)"
    using matches_take [OF n] by (auto simp: test_anchored_def min_def)
  show "list_all plate_char (take n s)"
    using matches_chars [OF n] by (auto simp: list_all_iff)
qed

lemma match_all_elem:
  "m \<in> set (match_all p s) \<Longrightarrow> sublist m s \<and> test_anchored p m \<and> list_all plate_char m"
proof (induction p s rule: match_all.induct)
  case (1 p)
  show ?case
  proof (cases "match_prefix p []")
    case None
    with 1 show ?thesis by simp
  next
    case (Some n)
    with 1 match_prefix_anchored [OF Some] show ?thesis by simp
  qed
next
  case (2 p c cs)
  show ?case
  proof (cases "match_prefix p (c # cs)")
    case None
    with 2 show ?thesis by (auto simp: sublist_Cons_right)
  next
    case (Some n)
    note anch = match_prefix_anchored [OF Some]
    show ?thesis
    proof (cases "n = 0")
      case True
      with 2 Some anch show ?thesis by (auto simp: sublist_Cons_right)
    next
      case False
      with "2.prems" Some have "m = take n (c # cs) \<or> m \<in> set (match_all p (drop (n - 1) cs))"
        by auto
      then show ?thesis
      proof
        assume "m = take n (c # cs)"
        with anch show ?thesis by (simp add: prefix_imp_sublist take_is_prefix)
      next
        assume "m \<in> set (match_all p (drop (n - 1) cs))"
        with "2.IH"(3) [OF Some False] have *: "sublist m (drop (n - 1) cs)"
          and **: "test_anchored p m \<and> list_all plate_char m" by auto
        have "suffix (drop (n - 1) cs) (c # cs)"
          by (meson suffix_drop suffix_ConsI)
        with * have "sublist m (c # cs)"
          by (meson suffix_imp_sublist sublist_order.order.trans)
        with ** show ?thesis by simp
      qed
    qed
  qed
qed

declare matches.simps [simp del]

lemma collect_candidates_elem:
  "c \<in> set (collect_candidates clean) \<Longrightarrow>
     \<exists>pat \<in> set MEXICAN_PLATE_PATTERNS. plate c \<in> set (match_all pat clean) \<and>
        6 \<le> length (plate c) \<and> length (plate c) \<le> 10"
  by (auto simp: collect_candidates_def pattern_candidates_def)

lemma validate_Some_elem:
  assumes "validateMexicanPlate (Some t) = Some p"
  shows "\<exists>c \<in> set (collect_candidates (cleanText t)). p = plate c"
proof -
  from assms obtain c cs where "ranked_candidates (Some t) = c # cs" "p = plate c"
    by (auto simp: validate_eq_ranked split: list.splits)
  moreover then have "c \<in> set (collect_candidates (cleanText t))"
    using set_array_sort [of by_score_desc "collect_candidates (cleanText t)"]
    by (auto simp: ranked_candidates_def split: if_splits)
  ultimately show ?thesis by blast
qed

lemma plate_char_not_space_lower: "plate_char c \<Longrightarrow> \<not> is_space c \<and> \<not> is_lower c"
  by (auto simp: plate_char_def is_upper_def is_digit_def is_dash_def is_space_def is_lower_def code_def)

section \<open>Properties of the cleaning step\<close>

text \<open>
  After the first replacement and the removal of whitespace only uppercase letters, digits
  and dashes are left, so the final \<open>toUpperCase\<close> changes nothing.
\<close>

lemma set_remove_ci: "set (remove_ci lit s) \<subseteq> set s"
proof (induction lit s rule: remove_ci.induct)
  case (1 lit)
  then show ?case by simp
next
  case (2 lit c cs)
  show ?case
  proof (cases "lit \<noteq> [] \<and> ci_prefix lit (c # cs)")
    case True
    with 2 have "set (remove_ci lit (c # cs)) \<subseteq> set (drop (length lit) (c # cs))" by simp
    also have "\<dots> \<subseteq> set (c # cs)" by (rule set_drop_subset)
    finally show ?thesis .
  next
    case False
    with 2 show ?thesis by auto
  qed
qed

lemma to_upper_plate_char: "plate_char c \<Longrightarrow> to_upper c = c"
  using plate_char_not_space_lower [of c] by (simp add: to_upper_def)

lemma cleanText_toUpperCase_noop:
  "cleanText text =
     filter (\<lambda>c. \<not> is_space c)
       (remove_ci ''.com'' (remove_ci ''www.'' (remove_ci ''platesmania'' (filter keep_char text))))"
proof -
  let ?s = "remove_ci ''.com'' (remove_ci ''www.'' (remove_ci ''platesmania'' (filter keep_char text)))"
  have "set ?s \<subseteq> set (filter keep_char text)"
    using set_remove_ci by (meson order_trans)
  then have "\<forall>c \<in> set (filter (\<lambda>c. \<not> is_space c) ?s). plate_char c"
    by (auto simp: keep_char_def plate_char_def)
  then have "map to_upper (filter (\<lambda>c. \<not> is_space c) ?s) = filter (\<lambda>c. \<not> is_space c) ?s"
    by (intro map_idI) (simp add: to_upper_plate_char)
  then show ?thesis by (simp add: cleanText_def toUpperCase_def)
qed

section \<open>Further lemmas\<close>

lemma validate_Some_length: "validateMexicanPlate text = Some p \<Longrightarrow> 6 \<le> length p"
proof -
  assume a: "validateMexicanPlate text = Some p"
  then obtain t where t: "text = Some t"
    by (cases "text") (auto simp: validateMexicanPlate_def)
  from validate_Some_elem [OF a [unfolded t]] collect_candidates_elem show ?thesis by blast
qed

lemma ocr_result_of_Some:
  "validateMexicanPlate (o_text ob) = Some p \<Longrightarrow>
   ocr_result_of ob = [\<lparr>r_plateText = p, r_confidence = o_confidence ob / 100,
                        r_rawText = o_text ob, r_source = o_variantName ob\<rparr>]"
  using validate_Some_length [of "o_text ob" p] by (auto simp: ocr_result_of_def)

lemma ocr_result_of_None: "validateMexicanPlate (o_text ob) = None \<Longrightarrow> ocr_result_of ob = []"
  by (simp add: ocr_result_of_def)

lemma str_includes_iff_sublist: "str_includes s lit \<longleftrightarrow> sublist lit s"
  by (induction s) (auto simp: sublist_Cons_right)

lemma test_any_iff: "test_any lits s \<longleftrightarrow> list_ex (\<lambda>t. sublist t s) lits"
  by (simp add: test_any_def list_ex_iff str_includes_iff_sublist)

lemma str_includes_dash: "str_includes m ''-'' \<longleftrightarrow> CHR ''-'' \<in> set m"
  by (induction m) (auto simp: prefix_Cons)

lemma upper_not_dash_digit: "is_upper c \<Longrightarrow> \<not> is_dash c \<and> \<not> is_digit c"
  by (auto simp: is_upper_def is_dash_def is_digit_def code_def)

lemma legacy_federal_exclusive:
  assumes a: "test_anchored [(Upper, 3, 3), (Dash, 0, 1), (Digit, 4, 4)] m"
    and b: "test_anchored [(Upper, 2, 2), (Dash, 0, 1), (Digit, 3, 3), (Dash, 0, 1), (Upper, 2, 2)] m"
  shows False
proof -
  from a have "2 < run Upper m"
    unfolding test_anchored_def matches_Cons_iff [of _ Upper] by auto
  from run_nth [OF this] have up: "is_upper (m ! 2)" by simp
  from b obtain k l where k: "k \<le> 1" "k \<le> run Dash (drop 2 m)"
    and l: "l \<in> set (matches [(Digit, 3, 3), (Dash, 0, 1), (Upper, 2, 2)] (drop k (drop 2 m)))"
    unfolding test_anchored_def matches_Cons_iff [of _ Upper] matches_Cons_iff [of _ Dash 0 1]
    by auto
  from l have d: "3 \<le> run Digit (drop k (drop 2 m))"
    unfolding matches_Cons_iff [of _ Digit] by auto
  show False
  proof (cases "k = 0")
    case True
    with d have "0 < run Digit (drop 2 m)" by simp
    from run_drop_nth [OF this] up upper_not_dash_digit show False by auto
  next
    case False
    with k have "0 < run Dash (drop 2 m)" by simp
    from run_drop_nth [OF this] up upper_not_dash_digit show False by auto
  qed
qed

lemma base_score_eq_spec: "base_score m = base_score_spec m"
  using legacy_federal_exclusive [of m] by (auto simp: base_score_def base_score_spec_def)

lemma base_score_ge_50: "50 \<le> base_score m"
  by (simp add: base_score_def)

lemma score_of_ge_15: "15 \<le> score_of m"
  using base_score_ge_50 [of m] by (simp add: score_of_def Let_def)

lemma collect_candidates_no_match:
  "list_all (\<lambda>p. match_all p clean = []) MEXICAN_PLATE_PATTERNS \<Longrightarrow> collect_candidates clean = []"
  by (auto simp: collect_candidates_def pattern_candidates_def list_all_iff)

lemma rank_results_Nil: "rank_results [] = no_detection"
  by (simp add: rank_results_def)

lemma plates_of_pattern_candidates:
  "map plate (pattern_candidates pattern clean) =
     filter (\<lambda>m. 6 \<le> length m \<and> length m \<le> 10) (match_all pattern clean)"
  by (simp add: pattern_candidates_def comp_def)

lemma plates_of_pattern_candidates_standalone:
  "map plate (pattern_candidates_standalone pattern clean) =
     filter (\<lambda>m. 5 \<le> length m \<and> length m \<le> 10) (match_all pattern clean)"
  by (simp add: pattern_candidates_standalone_def comp_def)




lemma far_apart_sym: "far_apart a b \<Longrightarrow> far_apart b a"
  by (simp add: far_apart_def abs_minus_commute)

lemma separated_iff:
  "separated xs \<longleftrightarrow> distinct xs \<and> (\<forall>a \<in> set xs. \<forall>b \<in> set xs. a \<noteq> b \<longrightarrow> far_apart a b)"
proof (induction xs)
  case Nil
  then show ?case by (simp add: separated_def)
next
  case (Cons x xs)
  have irrefl: "\<not> far_apart x x" by (simp add: far_apart_def)
  show ?case
    using Cons irrefl far_apart_sym unfolding separated_def sorted_wrt.simps distinct.simps
    by (metis set_ConsD list.set_intros(1) list.set_intros(2))
qed

lemma distinct_sort_insert: "distinct ys \<Longrightarrow> x \<notin> set ys \<Longrightarrow> distinct (sort_insert cmp x ys)"
  by (induction ys) (auto simp: set_sort_insert)

lemma sorted_sort_insert_conf:
  "sorted_wrt conf_desc ys \<Longrightarrow> \<forall>y \<in> set ys. far_apart x y \<Longrightarrow>
   sorted_wrt conf_desc (sort_insert by_confidence x ys)"
proof (induction ys)
  case Nil
  then show ?case by simp
next
  case (Cons y ys)
  from Cons.prems have far: "far_apart x y" by simp
  show ?case
  proof (cases "by_confidence x y < 0")
    case True
    with far have xy: "conf_desc x y"
      by (auto simp: by_confidence_def far_apart_def conf_desc_def split: if_splits)
    moreover from Cons.prems(1) xy have "\<forall>z \<in> set ys. conf_desc x z"
      by (auto simp: conf_desc_def)
    ultimately show ?thesis using True Cons.prems(1) by simp
  next
    case False
    with far have yx: "conf_desc y x"
      by (auto simp: by_confidence_def far_apart_def conf_desc_def split: if_splits)
    with False Cons show ?thesis by (auto simp: set_sort_insert)
  qed
qed

lemma sorted_foldl_conf:
  "sorted_wrt conf_desc acc \<Longrightarrow> separated (acc @ xs) \<Longrightarrow>
   sorted_wrt conf_desc (foldl (\<lambda>acc x. sort_insert by_confidence x acc) acc xs)"
proof (induction xs arbitrary: acc)
  case Nil
  then show ?case by simp
next
  case (Cons x xs)
  from Cons.prems(2) have sep: "distinct (acc @ x # xs)"
    "\<forall>a \<in> set (acc @ x # xs). \<forall>b \<in> set (acc @ x # xs). a \<noteq> b \<longrightarrow> far_apart a b"
    unfolding separated_iff by blast+
  then have "\<forall>y \<in> set acc. far_apart x y" by auto
  then have 1: "sorted_wrt conf_desc (sort_insert by_confidence x acc)"
    using Cons.prems(1) by (simp add: sorted_sort_insert_conf)
  have "distinct (sort_insert by_confidence x acc @ xs)"
    using sep(1) by (auto simp: distinct_sort_insert set_sort_insert)
  moreover have "set (sort_insert by_confidence x acc @ xs) = set (acc @ x # xs)"
    by (auto simp: set_sort_insert)
  ultimately have 2: "separated (sort_insert by_confidence x acc @ xs)"
    using sep(2) unfolding separated_iff by simp
  from Cons.IH [OF 1 2] show ?case by simp
qed

lemma sorted_array_sort_conf:
  "separated xs \<Longrightarrow> sorted_wrt conf_desc (array_sort by_confidence xs)"
  by (simp add: array_sort_def sorted_foldl_conf)

lemma conf_desc_sorted_unique:
  "sorted_wrt conf_desc as \<Longrightarrow> sorted_wrt conf_desc bs \<Longrightarrow> set as = set bs \<Longrightarrow> as = bs"
proof (induction as arbitrary: bs)
  case Nil
  then show ?case by simp
next
  case (Cons a as)
  then obtain b bs' where bs: "bs = b # bs'" by (cases bs) auto
  have irrefl: "\<And>x. \<not> conf_desc x x" by (simp add: conf_desc_def)
  have asym: "\<And>x y. conf_desc x y \<Longrightarrow> \<not> conf_desc y x" by (auto simp: conf_desc_def)
  from Cons.prems bs have a: "\<forall>x \<in> set as. conf_desc a x" and b: "\<forall>x \<in> set bs'. conf_desc b x"
    by auto
  have "a \<in> set (b # bs')" "b \<in> set (a # as)" using Cons.prems(3) bs by auto
  with a b asym have ab: "a = b" by auto
  from a irrefl have "a \<notin> set as" by blast
  moreover from b irrefl have "b \<notin> set bs'" by blast
  ultimately have "set as = set bs'" using Cons.prems(3) bs ab by auto
  with Cons.IH [of bs'] Cons.prems bs ab show ?case by simp
qed

lemma array_sort_two:
  "array_sort cmp [a, b] = (if cmp b a < 0 then [b, a] else [a, b])"
  by (simp add: array_sort_def)

section \<open>The claims\<close>

subsection \<open>C1: ranking across observations\<close>

text \<open>
  Claim C1 says that the candidates of two observations are pooled and ranked by candidate
  score, so that the observation reading \<open>ABC-12-34\<close> (score 110) comes before the one
  reading \<open>XXX-111-A\<close> (score 80) whatever the OCR confidences.  The code pools candidates
  only inside one call of \<open>validateMexicanPlate\<close>, which returns the plate without its score;
  \<open>detectPlateWithOCR\<close> ranks the observations by OCR confidence.  With confidence 0.9 for
  \<open>XXX-111-A\<close> and 0.3 for \<open>ABC-12-34\<close> the lower-scoring plate is the best result, in
  either processing order.
\<close>

theorem higher_score_not_ranked_first_counterexample:
  "plateText (detectPlateWithOCR
     [\<lparr>o_text = Some ''XXX-111-A'', o_confidence = 90, o_variantName = ''alto contraste''\<rparr>,
      \<lparr>o_text = Some ''ABC-12-34'', o_confidence = 30, o_variantName = ''realce de bordes''\<rparr>])
     = Some ''XXX-111-A'' \<and>
   plateText (detectPlateWithOCR
     [\<lparr>o_text = Some ''ABC-12-34'', o_confidence = 30, o_variantName = ''realce de bordes''\<rparr>,
      \<lparr>o_text = Some ''XXX-111-A'', o_confidence = 90, o_variantName = ''alto contraste''\<rparr>])
     = Some ''XXX-111-A'' \<and>
   score_of ''XXX-111-A'' = 80 \<and> score_of ''ABC-12-34'' = 110"
  by code_simp

text \<open>
  Claim C1, as the code has it: of two observations that both yield a plate and whose
  confidences, between 0 and 100 percent, differ by at least 11 points (0.11, so that the
  comparison is not a near tie), the plate of the more confident observation is the best
  result, with its confidence and its variation, in either processing order and whatever
  the candidate scores.
\<close>

theorem two_observations_ranked_by_confidence:
  assumes "validateMexicanPlate (o_text o1) = Some p1"
    and "validateMexicanPlate (o_text o2) = Some p2"
    and "0 \<le> o_confidence o1" and "o_confidence o1 + 11 \<le> o_confidence o2"
    and "o_confidence o2 \<le> 100"
  shows "plateText (detectPlateWithOCR [o1, o2]) = Some p2 \<and>
         plateText (detectPlateWithOCR [o2, o1]) = Some p2 \<and>
         confidence (detectPlateWithOCR [o1, o2]) = o_confidence o2 / 100 \<and>
         confidence (detectPlateWithOCR [o2, o1]) = o_confidence o2 / 100 \<and>
         processingMethod (detectPlateWithOCR [o1, o2]) = Some (o_variantName o2) \<and>
         processingMethod (detectPlateWithOCR [o2, o1]) = Some (o_variantName o2)"
  using assms(4)
  by (simp add: detectPlateWithOCR_def ocr_result_of_Some [OF assms(1)]
        ocr_result_of_Some [OF assms(2)] rank_results_def array_sort_two by_confidence_def)

theorem two_observations_ranked_by_confidence_witness:
  "plateText (detectPlateWithOCR
     [\<lparr>o_text = Some ''ABC-12-34'', o_confidence = 30, o_variantName = ''realce de bordes''\<rparr>,
      \<lparr>o_text = Some ''XXX-111-A'', o_confidence = 90, o_variantName = ''alto contraste''\<rparr>])
     = Some ''XXX-111-A''"
proof -
  have 1: "validateMexicanPlate (Some ''ABC-12-34'') = Some ''ABC-12-34''" by code_simp
  have 2: "validateMexicanPlate (Some ''XXX-111-A'') = Some ''XXX-111-A''" by code_simp
  show ?thesis
    using two_observations_ranked_by_confidence [of "\<lparr>o_text = Some ''ABC-12-34'', o_confidence = 30, o_variantName = ''realce de bordes''\<rparr>"
                 "''ABC-12-34''"
                 "\<lparr>o_text = Some ''XXX-111-A'', o_confidence = 90, o_variantName = ''alto contraste''\<rparr>"
                 "''XXX-111-A''"] 1 2
    by simp
qed

subsection \<open>C2: lowercase letters\<close>

text \<open>
  Claim C2 says that a lowercase letter survives the cleaning and comes out in uppercase,
  so that \<open>ncm-27-04\<close> is cleaned to \<open>NCM-27-04\<close>.  The first replacement,
  \<open>/[^A-Z0-9-\s]/g\<close>, has no \<open>i\<close> flag and runs before \<open>toUpperCase\<close>: it deletes the lowercase
  letters, the cleaned text is \<open>-27-04\<close>, and no plate is found.
\<close>

theorem cleanText_deletes_lowercase:
  "cleanText ''ncm-27-04'' = ''-27-04'' \<and> validateMexicanPlate (Some ''ncm-27-04'') = None \<and>
   validateMexicanPlate (Some ''NCM-27-04'') = Some ''NCM-27-04''"
  by code_simp

subsection \<open>C3: the scoring rule\<close>

text \<open>
  Claim C3: the score of a matched string is the base of the first exact-format check that
  it passes, in the order 100, 90, 85, 85, 80, 60, 50 of the specification, plus 10 for a
  dash, minus 20 for a repeated digit triple, minus 15 for \<open>AAA\<close>, \<open>BBB\<close> or \<open>CCC\<close>.  The code
  tests the legacy format (80) before the federal format (85); no string passes both, so the
  two orders give the same base.
\<close>

theorem score_of_eq_score_spec: "score_of m = score_spec m"
  by (simp add: score_of_def score_spec_def Let_def base_score_eq_spec test_any_iff str_includes_dash)

theorem score_of_eq_score_spec_witness: "score_spec ''XXX-111-A'' = 80 \<and> score_spec ''ABC-12-34'' = 110"
  unfolding score_of_eq_score_spec [symmetric] by code_simp

subsection \<open>C4: the length window\<close>

text \<open>
  Claim C4 says that a match becomes a candidate exactly if its length is between 5 and 10.
  In the validator of \<open>analyze-plate-enhanced.post.js\<close> the window is 6 to 10: the match
  \<open>AB123\<close> of the ninth pattern in \<open>AB123-\<close> has length 5 and is discarded.
\<close>

theorem match_of_length_five_discarded_counterexample:
  "''AB123'' \<in> set (match_all [(Upper, 2, 3), (Digit, 2, 4), (Upper, 0, 1)] (cleanText ''AB123-'')) \<and>
   5 \<le> length ''AB123'' \<and> length ''AB123'' \<le> 10 \<and>
   collect_candidates (cleanText ''AB123-'') = [] \<and>
   validateMexicanPlate (Some ''AB123-'') = None"
  by code_simp

text \<open>
  Claim C4, as the code has it: a string is the plate of a candidate exactly if it is a
  match of one of the patterns with a length between the lower bound and 10, where the lower
  bound is 6 in the validator of the server and 5 in the validator of the standalone test.
\<close>

theorem candidate_length_window:
  "(m \<in> set (map plate (collect_candidates clean)) \<longleftrightarrow>
      list_ex (\<lambda>pattern. m \<in> set (match_all pattern clean)) MEXICAN_PLATE_PATTERNS \<and>
      6 \<le> length m \<and> length m \<le> 10) \<and>
   (m \<in> set (map plate (collect_candidates_standalone clean)) \<longleftrightarrow>
      list_ex (\<lambda>pattern. m \<in> set (match_all pattern clean)) STANDALONE_PLATE_PATTERNS \<and>
      5 \<le> length m \<and> length m \<le> 10)"
proof -
  have "set (map plate (collect_candidates clean)) =
          (\<Union>pattern \<in> set MEXICAN_PLATE_PATTERNS. set (map plate (pattern_candidates pattern clean)))"
    by (simp add: collect_candidates_def map_concat comp_def)
  moreover have "set (map plate (collect_candidates_standalone clean)) =
          (\<Union>pattern \<in> set STANDALONE_PLATE_PATTERNS.
              set (map plate (pattern_candidates_standalone pattern clean)))"
    by (simp add: collect_candidates_standalone_def map_concat comp_def)
  ultimately show ?thesis
    unfolding plates_of_pattern_candidates plates_of_pattern_candidates_standalone
    by (auto simp: list_ex_iff)
qed

theorem candidate_length_window_witness:
  "''AB123'' \<notin> set (map plate (collect_candidates ''AB123-'')) \<and>
   ''AB123'' \<in> set (map plate (collect_candidates_standalone ''AB123-''))"
proof -
  have "list_ex (\<lambda>pattern. ''AB123'' \<in> set (match_all pattern ''AB123-''))
          STANDALONE_PLATE_PATTERNS"
    by code_simp
  with candidate_length_window [of "''AB123''" "''AB123-''"] show ?thesis by (simp del: match_all.simps)
qed

subsection \<open>C5: the best plate and the candidate list\<close>

text \<open>
  Claim C5: the validator returns a plate exactly if the candidate list is not empty, and
  the plate it returns is that of the first candidate of the ranked list, which no other
  candidate outscores.
\<close>

theorem bestPlate_iff_candidates: 
  "(validateMexicanPlate text \<noteq> None \<longleftrightarrow> ranked_candidates text \<noteq> []) \<and>
   (case ranked_candidates text of
      [] \<Rightarrow> validateMexicanPlate text = None
    | c # cs \<Rightarrow> validateMexicanPlate text = Some (plate c) \<and> list_all (\<lambda>d. score d \<le> score c) cs)"
proof -
  have "sorted_wrt score_desc (ranked_candidates text)"
    by (auto simp: ranked_candidates_def sorted_array_sort_score split: option.splits)
  then show ?thesis
    by (auto simp: validate_eq_ranked score_desc_def list_all_iff split: list.splits)
qed

theorem bestPlate_iff_candidates_witness:
  "validateMexicanPlate (Some ''GZW-002-A'') = Some ''GZW-002-A'' \<and>
   ranked_candidates (Some ''GZW-002-A'') =
     [\<lparr>plate = ''GZW-002-A'', score = 100\<rparr>, \<lparr>plate = ''GZW-002-'', score = 95\<rparr>]"
proof -
  have "ranked_candidates (Some ''GZW-002-A'') =
     [\<lparr>plate = ''GZW-002-A'', score = 100\<rparr>, \<lparr>plate = ''GZW-002-'', score = 95\<rparr>]"
    by code_simp
  with bestPlate_iff_candidates [of "Some ''GZW-002-A''"] show ?thesis by simp
qed

subsection \<open>C6: no candidate is not an error\<close>

text \<open>
  Claim C6: for a text that is null, empty, shorter than the minimum length or without any
  pattern match the validator returns null and builds no candidate; observations without a
  plate, and the empty list of observations, give the result without a plate and with an
  empty candidate list.  The functions of the model are total and have no error value, as
  the source has no \<open>throw\<close> on these paths.
\<close>

theorem no_candidate_is_not_an_error:
  "((case text of
       None \<Rightarrow> True
     | Some t \<Rightarrow> length t < 6 \<or> list_all (\<lambda>p. match_all p (cleanText t) = []) MEXICAN_PLATE_PATTERNS)
    \<longrightarrow> validateMexicanPlate text = None \<and> ranked_candidates text = []) \<and>
   (list_all (\<lambda>ob. validateMexicanPlate (o_text ob) = None) obs
    \<longrightarrow> detectPlateWithOCR obs = no_detection) \<and>
   detectPlateWithOCR [] = no_detection \<and>
   \<not> hasPlate no_detection \<and> plateText no_detection = None \<and> allCandidates no_detection = []"
proof (intro conjI impI)
  assume h: "case text of None \<Rightarrow> True
     | Some t \<Rightarrow> length t < 6 \<or> list_all (\<lambda>p. match_all p (cleanText t) = []) MEXICAN_PLATE_PATTERNS"
  then show "ranked_candidates text = []"
    by (auto simp: ranked_candidates_def collect_candidates_no_match split: option.splits)
  then show "validateMexicanPlate text = None"
    by (simp add: validate_eq_ranked)
next
  assume "list_all (\<lambda>ob. validateMexicanPlate (o_text ob) = None) obs"
  then have "concat (map ocr_result_of obs) = []"
    by (induction obs) (auto simp: ocr_result_of_None)
  then show "detectPlateWithOCR obs = no_detection"
    unfolding detectPlateWithOCR_def by (simp only: rank_results_Nil)
qed (simp_all add: detectPlateWithOCR_def rank_results_Nil no_detection_def)

theorem no_candidate_is_not_an_error_witness:
  "validateMexicanPlate (Some ''NO PLATE IN HERE'') = None \<and>
   validateMexicanPlate (Some ''AB12'') = None \<and>
   detectPlateWithOCR
     [\<lparr>o_text = None, o_confidence = 0, o_variantName = ''enfocada''\<rparr>,
      \<lparr>o_text = Some [], o_confidence = 95, o_variantName = ''escalada''\<rparr>] = no_detection"
proof -
  have 1: "list_all (\<lambda>p. match_all p (cleanText ''NO PLATE IN HERE'') = []) MEXICAN_PLATE_PATTERNS"
    by code_simp
  have 2: "list_all (\<lambda>ob. validateMexicanPlate (o_text ob) = None)
     [\<lparr>o_text = None, o_confidence = 0, o_variantName = ''enfocada''\<rparr>,
      \<lparr>o_text = Some [], o_confidence = 95, o_variantName = ''escalada''\<rparr>]"
    by code_simp
  show ?thesis
    using no_candidate_is_not_an_error [of "Some ''NO PLATE IN HERE''"
                 "[\<lparr>o_text = None, o_confidence = 0, o_variantName = ''enfocada''\<rparr>,
                   \<lparr>o_text = Some [], o_confidence = 95, o_variantName = ''escalada''\<rparr>]"]
          no_candidate_is_not_an_error [of "Some ''AB12''" "[]"] 1 2
    by simp
qed

subsection \<open>C7: the selection among the detections\<close>




subsection \<open>C8: the order of the OCR results\<close>

text \<open>
  Claim C8 says that the best result is the same under every permutation of the list of
  OCR results.  For two results with the same confidence from two variations other than
  \<open>enfocada\<close> the comparison function returns 1 in both directions, and the result that
  comes first in the list stays first.
\<close>

theorem ranking_depends_on_order_counterexample:
  "plateText (detectPlateWithOCR
     [\<lparr>o_text = Some ''ABC-12-34'', o_confidence = 50, o_variantName = ''realce de bordes''\<rparr>,
      \<lparr>o_text = Some ''XXX-111-A'', o_confidence = 50, o_variantName = ''alto contraste''\<rparr>])
     = Some ''ABC-12-34'' \<and>
   plateText (detectPlateWithOCR
     [\<lparr>o_text = Some ''XXX-111-A'', o_confidence = 50, o_variantName = ''alto contraste''\<rparr>,
      \<lparr>o_text = Some ''ABC-12-34'', o_confidence = 50, o_variantName = ''realce de bordes''\<rparr>])
     = Some ''XXX-111-A''"
  by code_simp

text \<open>
  Claim C8, as the code has it: when any two results of the list are at least 0.11 apart in
  confidence (so that no comparison is a near tie), the results are ranked by decreasing
  confidence: the candidate list holds the results in strictly decreasing order of
  confidence, the best result is the plate, confidence and variation of the most confident
  one, and every permutation of the list gives the same detection.
\<close>

theorem ranking_of_separated_results:
  assumes "separated xs" and "mset ys = mset xs"
  shows "rank_results ys = rank_results xs \<and>
         mset (allCandidates (rank_results xs)) = mset (map candidate_of xs) \<and>
         sorted_wrt (\<lambda>p q. snd q < snd p) (allCandidates (rank_results xs)) \<and>
         (xs \<noteq> [] \<longrightarrow>
            hasPlate (rank_results xs) \<and>
            (\<exists>best \<in> set xs.
                (\<forall>r \<in> set xs. r_confidence r \<le> r_confidence best) \<and>
                plateText (rank_results xs) = Some (r_plateText best) \<and>
                confidence (rank_results xs) = r_confidence best \<and>
                processingMethod (rank_results xs) = Some (r_source best)))"
proof -
  let ?s = "array_sort by_confidence xs"
  from assms(2) have set: "set ys = set xs" and dist: "distinct ys = distinct xs"
    and len: "length ys = length xs"
    by (auto dest: mset_eq_setD mset_eq_imp_distinct_iff mset_eq_length)
  with assms(1) have "separated ys" unfolding separated_iff by simp
  then have "sorted_wrt conf_desc (array_sort by_confidence ys)"
    by (rule sorted_array_sort_conf)
  moreover have sorted: "sorted_wrt conf_desc ?s"
    using assms(1) by (rule sorted_array_sort_conf)
  ultimately have "array_sort by_confidence ys = ?s"
    using set by (intro conf_desc_sorted_unique) (simp_all add: set_array_sort)
  with len have 1: "rank_results ys = rank_results xs" by (simp add: rank_results_def)
  have cands: "allCandidates (rank_results xs) = map candidate_of ?s"
    by (cases ?s) (auto simp: rank_results_def no_detection_def candidate_of_def
          array_sort_Nil_iff)
  have 2: "mset (allCandidates (rank_results xs)) = mset (map candidate_of xs)"
    unfolding cands by (simp add: mset_array_sort)
  have 3: "sorted_wrt (\<lambda>p q. snd q < snd p) (allCandidates (rank_results xs))"
    unfolding cands sorted_wrt_map
    by (rule sorted_wrt_mono_rel [OF _ sorted]) (simp add: candidate_of_def conf_desc_def)
  have 4: "hasPlate (rank_results xs) \<and>
            (\<exists>best \<in> set xs.
                (\<forall>r \<in> set xs. r_confidence r \<le> r_confidence best) \<and>
                plateText (rank_results xs) = Some (r_plateText best) \<and>
                confidence (rank_results xs) = r_confidence best \<and>
                processingMethod (rank_results xs) = Some (r_source best))" if "xs \<noteq> []"
  proof -
    from that obtain best rest where s: "?s = best # rest"
      by (cases ?s) (auto simp: array_sort_Nil_iff)
    then have "set xs = insert best (set rest)"
      using set_array_sort [of by_confidence xs] by simp
    moreover from sorted s have "\<forall>r \<in> set rest. r_confidence r \<le> r_confidence best"
      by (auto simp: conf_desc_def)
    ultimately have "best \<in> set xs" "\<forall>r \<in> set xs. r_confidence r \<le> r_confidence best"
      by auto
    moreover from that s have "hasPlate (rank_results xs)"
      "plateText (rank_results xs) = Some (r_plateText best)"
      "confidence (rank_results xs) = r_confidence best"
      "processingMethod (rank_results xs) = Some (r_source best)"
      by (simp_all add: rank_results_def)
    ultimately show ?thesis by blast
  qed
  from 1 2 3 4 show ?thesis by blast
qed

theorem ranking_of_separated_results_witness:
  "rank_results
     [\<lparr>r_plateText = ''XXX-111-A'', r_confidence = 9 / 10, r_rawText = Some ''XXX-111-A'',
        r_source = ''alto contraste''\<rparr>,
      \<lparr>r_plateText = ''NCM-27-04'', r_confidence = 3 / 5, r_rawText = Some ''NCM-27-04'',
        r_source = ''enfocada''\<rparr>,
      \<lparr>r_plateText = ''ABC-12-34'', r_confidence = 3 / 10, r_rawText = Some ''ABC-12-34'',
        r_source = ''realce de bordes''\<rparr>]
   = rank_results
     [\<lparr>r_plateText = ''NCM-27-04'', r_confidence = 3 / 5, r_rawText = Some ''NCM-27-04'',
        r_source = ''enfocada''\<rparr>,
      \<lparr>r_plateText = ''ABC-12-34'', r_confidence = 3 / 10, r_rawText = Some ''ABC-12-34'',
        r_source = ''realce de bordes''\<rparr>,
      \<lparr>r_plateText = ''XXX-111-A'', r_confidence = 9 / 10, r_rawText = Some ''XXX-111-A'',
        r_source = ''alto contraste''\<rparr>]"
  using ranking_of_separated_results
    [of "[\<lparr>r_plateText = ''NCM-27-04'', r_confidence = 3 / 5, r_rawText = Some ''NCM-27-04'',
        r_source = ''enfocada''\<rparr>,
      \<lparr>r_plateText = ''ABC-12-34'', r_confidence = 3 / 10, r_rawText = Some ''ABC-12-34'',
        r_source = ''realce de bordes''\<rparr>,
      \<lparr>r_plateText = ''XXX-111-A'', r_confidence = 9 / 10, r_rawText = Some ''XXX-111-A'',
        r_source = ''alto contraste''\<rparr>]"
        "[\<lparr>r_plateText = ''XXX-111-A'', r_confidence = 9 / 10, r_rawText = Some ''XXX-111-A'',
        r_source = ''alto contraste''\<rparr>,
      \<lparr>r_plateText = ''NCM-27-04'', r_confidence = 3 / 5, r_rawText = Some ''NCM-27-04'',
        r_source = ''enfocada''\<rparr>,
      \<lparr>r_plateText = ''ABC-12-34'', r_confidence = 3 / 10, r_rawText = Some ''ABC-12-34'',
        r_source = ''realce de bordes''\<rparr>]"]
  by (simp add: separated_def far_apart_def)

subsection \<open>C9: the sign of the score\<close>

text \<open>
  Claim C9 says that some input gets a negative score.  The base is at least 50 and the
  two penalties take at most 35 away, so no string scores below 15.
\<close>

theorem no_negative_score_counterexample: "\<not> (\<exists>m. score_of m < 0)"
  using score_of_ge_15 by (metis not_less order_trans zero_le_numeral)

text \<open>
  Claim C9, as the code has it: every score is at least 15; the score is not clamped, and
  a candidate that is the only one is returned as the best plate whatever its score.
\<close>

theorem score_at_least_15_and_sole_candidate:
  "15 \<le> score_of m \<and>
   (6 \<le> length t \<and> collect_candidates (cleanText t) = [c]
    \<longrightarrow> validateMexicanPlate (Some t) = Some (plate c) \<and> ranked_candidates (Some t) = [c])"
  by (auto simp: score_of_ge_15 validateMexicanPlate_def ranked_candidates_def array_sort_def)

theorem score_at_least_15_and_sole_candidate_witness:
  "15 \<le> score_of ''12AB111'' \<and> validateMexicanPlate (Some ''12AB111'') = Some ''12AB111'' \<and>
   ranked_candidates (Some ''12AB111'') = [\<lparr>plate = ''12AB111'', score = 30\<rparr>]"
proof -
  have "collect_candidates (cleanText ''12AB111'') = [\<lparr>plate = ''12AB111'', score = 30\<rparr>]"
    by code_simp
  with score_at_least_15_and_sole_candidate [of "''12AB111''" "''12AB111''" "\<lparr>plate = ''12AB111'', score = 30\<rparr>"]
  show ?thesis by simp
qed

subsection \<open>C10: the shape of a validated plate\<close>

text \<open>
  Claim C10: a plate returned by the validator is a contiguous part of the cleaned text,
  has between 6 and 10 characters, all of them uppercase letters, digits or dashes (so no
  whitespace and no lowercase letter), and is matched in full by one of the nine patterns.
\<close>

theorem validated_plate_shape:
  assumes "validateMexicanPlate (Some t) = Some p"
  shows "sublist p (cleanText t) \<and> 6 \<le> length p \<and> length p \<le> 10 \<and>
         list_all plate_char p \<and> list_all (\<lambda>c. \<not> is_space c \<and> \<not> is_lower c) p \<and>
         list_ex (\<lambda>pat. test_anchored pat p) MEXICAN_PLATE_PATTERNS"
proof -
  from validate_Some_elem [OF assms] obtain c
    where c: "c \<in> set (collect_candidates (cleanText t))" and p: "p = plate c" by blast
  from collect_candidates_elem [OF c] p obtain pat
    where pat: "pat \<in> set MEXICAN_PLATE_PATTERNS" and m: "p \<in> set (match_all pat (cleanText t))"
      and len: "6 \<le> length p" "length p \<le> 10" by blast
  from match_all_elem [OF m] have *: "sublist p (cleanText t)" "test_anchored pat p"
    "list_all plate_char p" by auto
  from *(3) have "list_all (\<lambda>c. \<not> is_space c \<and> \<not> is_lower c) p"
    by (auto simp: list_all_iff plate_char_not_space_lower)
  moreover from pat *(2) have "list_ex (\<lambda>pat. test_anchored pat p) MEXICAN_PLATE_PATTERNS"
    by (auto simp: list_ex_iff)
  ultimately show ?thesis using * len by simp
qed

theorem validated_plate_shape_witness:
  "sublist ''NCM-27-04'' (cleanText ''platesmania.com NCM-27-04 www.'') \<and>
   list_all plate_char ''NCM-27-04'' \<and>
   list_ex (\<lambda>pat. test_anchored pat ''NCM-27-04'') MEXICAN_PLATE_PATTERNS"
proof -
  have "validateMexicanPlate (Some ''platesmania.com NCM-27-04 www.'') = Some ''NCM-27-04''"
    by code_simp
  from validated_plate_shape [OF this] show ?thesis by simp
qed

end
